theory Spec2Isabelle
  imports Complex_Main "HOL-Library.Multiset" "HOL-Library.Product_Lexorder"
begin

section \<open>Household load shifting on a daily carbon-intensity series\<close>

text \<open>
  A shallow embedding of the helper functions of \<^verbatim>\<open>streamlit_app.py\<close>:
  \<^verbatim>\<open>make_household_profile\<close>, \<^verbatim>\<open>compute_renewable_share\<close> and
  \<^verbatim>\<open>run_shift_scenario\<close>.
\<close>

subsection \<open>Numbers\<close>

text \<open>
  The program computes on binary64 numbers (numpy \<^verbatim>\<open>float64\<close>). A value is modelled as
  the real number it denotes, or one of the three special values. The special values
  follow IEEE 754 as numpy applies it (a division by zero is no exception: it gives an
  infinity or NaN). Two things are left out: a finite result is the exact real result
  (no rounding, no overflow), and the two zeros are one value, taken as \<open>+0\<close> when it
  divides.
\<close>

datatype float64 = Finite real | PosInf | NegInf | NaN

fun is_finite :: "float64 \<Rightarrow> bool" where
  "is_finite (Finite a) = True"
| "is_finite _ = False"

fun fneg :: "float64 \<Rightarrow> float64" where
  "fneg (Finite a) = Finite (- a)"
| "fneg PosInf = NegInf"
| "fneg NegInf = PosInf"
| "fneg NaN = NaN"

fun fadd :: "float64 \<Rightarrow> float64 \<Rightarrow> float64" where
  "fadd (Finite a) (Finite b) = Finite (a + b)"
| "fadd NaN _ = NaN"
| "fadd _ NaN = NaN"
| "fadd PosInf NegInf = NaN"
| "fadd NegInf PosInf = NaN"
| "fadd PosInf _ = PosInf"
| "fadd _ PosInf = PosInf"
| "fadd NegInf _ = NegInf"
| "fadd _ NegInf = NegInf"

definition fsub :: "float64 \<Rightarrow> float64 \<Rightarrow> float64" where
  "fsub a b = fadd a (fneg b)"

text \<open>An infinity times or over a finite number: the sign, and NaN for \<open>inf * 0\<close>.\<close>

definition inf_times :: "float64 \<Rightarrow> real \<Rightarrow> float64" where
  "inf_times i b = (if b = 0 then NaN else if 0 < b then i else fneg i)"

fun fmul :: "float64 \<Rightarrow> float64 \<Rightarrow> float64" where
  "fmul (Finite a) (Finite b) = Finite (a * b)"
| "fmul NaN _ = NaN"
| "fmul _ NaN = NaN"
| "fmul (Finite a) i = inf_times i a"
| "fmul i (Finite b) = inf_times i b"
| "fmul PosInf PosInf = PosInf"
| "fmul NegInf NegInf = PosInf"
| "fmul PosInf NegInf = NegInf"
| "fmul NegInf PosInf = NegInf"

fun fdiv :: "float64 \<Rightarrow> float64 \<Rightarrow> float64" where
  "fdiv (Finite a) (Finite b) =
     (if b \<noteq> 0 then Finite (a / b)
      else if a = 0 then NaN
      else if 0 < a then PosInf else NegInf)"
| "fdiv NaN _ = NaN"
| "fdiv _ NaN = NaN"
| "fdiv (Finite a) _ = Finite 0"
| "fdiv i (Finite b) = (if 0 \<le> b then i else fneg i)"
| "fdiv _ _ = NaN"

text \<open>The comparison \<^verbatim>\<open><=\<close>: false as soon as one side is NaN.\<close>

fun fle :: "float64 \<Rightarrow> float64 \<Rightarrow> bool" where
  "fle (Finite a) (Finite b) = (a \<le> b)"
| "fle NaN _ = False"
| "fle _ NaN = False"
| "fle NegInf _ = True"
| "fle _ PosInf = True"
| "fle _ _ = False"

text \<open>
  \<^verbatim>\<open>ndarray.sum()\<close> adds all the entries. Without rounding the order of the additions
  does not change the result.
\<close>

definition np_sum :: "float64 list \<Rightarrow> float64" where
  "np_sum vs = foldl fadd (Finite 0) vs"

text \<open>\<^verbatim>\<open>Series.sum()\<close> has \<^verbatim>\<open>skipna=True\<close>: it leaves the NaN entries out.\<close>

definition pd_sum :: "float64 list \<Rightarrow> float64" where
  "pd_sum vs = np_sum (filter (\<lambda>v. v \<noteq> NaN) vs)"

text \<open>\<^verbatim>\<open>Series.clip(lower, upper)\<close> on one entry: NaN stays NaN.\<close>

fun clip :: "real \<Rightarrow> real \<Rightarrow> float64 \<Rightarrow> float64" where
  "clip lower upper (Finite a) = Finite (min (max a lower) upper)"
| "clip lower upper PosInf = Finite upper"
| "clip lower upper NegInf = Finite lower"
| "clip lower upper NaN = NaN"

subsection \<open>Series\<close>

text \<open>
  A \<^verbatim>\<open>pd.Series\<close> is the list of its rows, each an index label with its value. The
  labels are the timestamps of the hours.
\<close>

type_synonym 'k series = "('k \<times> float64) list"

definition sort_index :: "('k::linorder) series \<Rightarrow> 'k series" where
  "sort_index s = sort_key fst s"

definition series_values :: "'k series \<Rightarrow> float64 list" where
  "series_values s = map snd s"

definition series_index :: "'k series \<Rightarrow> 'k list" where
  "series_index s = map fst s"

text \<open>\<^verbatim>\<open>s * c\<close> and friends: one operation on every value, the index kept.\<close>

definition series_map :: "(float64 \<Rightarrow> float64) \<Rightarrow> 'k series \<Rightarrow> 'k series" where
  "series_map f s = map (\<lambda>(k, v). (k, f v)) s"

text \<open>\<^verbatim>\<open>a + b\<close> of two series that carry the same index: row by row.\<close>

definition series_add :: "'k series \<Rightarrow> 'k series \<Rightarrow> 'k series" where
  "series_add a b = map (\<lambda>((k, x), (_, y)). (k, fadd x y)) (zip a b)"

text \<open>The Python slice \<^verbatim>\<open>xs[:n]\<close>; a negative \<open>n\<close> counts from the end.\<close>

definition slice_to :: "int \<Rightarrow> 'a list \<Rightarrow> 'a list" where
  "slice_to n xs = (if 0 \<le> n then take (nat n) xs else take (length xs - nat (- n)) xs)"

subsection \<open>The household profile\<close>

definition HOUSEHOLD_PROFILE_RAW :: "real list" where
  "HOUSEHOLD_PROFILE_RAW =
    [0.25, 0.23, 0.22, 0.22, 0.25,
     0.35, 0.55, 0.65, 0.60,
     0.55, 0.50, 0.48, 0.47, 0.50, 0.55,
     0.60, 0.75, 1.10, 1.20, 1.05,
     0.70, 0.55, 0.40, 0.30]"

definition make_household_profile :: "float64 \<Rightarrow> nat series" where
  "make_household_profile daily_kwh =
    (let raw = map Finite HOUSEHOLD_PROFILE_RAW;
         scale = fdiv daily_kwh (np_sum raw)
     in zip [0..<24] (map (\<lambda>w. fmul w scale) raw))"

subsection \<open>The renewable share\<close>

text \<open>The two columns of the day's frame that the function reads.\<close>

record generation_row =
  RENEWABLE :: float64
  GENERATION :: float64

definition compute_renewable_share :: "('k \<times> generation_row) list \<Rightarrow> 'k series" where
  "compute_renewable_share df_day =
    (let share = map (\<lambda>(k, r). (k, fdiv (RENEWABLE r) (GENERATION r))) df_day
     in series_map (clip 0 1) share)"

subsection \<open>The scenario\<close>

text \<open>
  Every error that the scenario raises is a \<^verbatim>\<open>ValueError\<close>; the message tells them
  apart. \<^verbatim>\<open>KeyError\<close> is what \<^verbatim>\<open>.loc\<close> raises for a label that the series lacks.
  The messages:
  \<^item> \<open>ci_length_msg n\<close>: "ci_series must contain exactly 24 hourly values, got n";
  \<^item> \<open>renewable_required_msg\<close>: "renewable_share is required for 'max_renewable' strategy";
  \<^item> \<open>strategy_msg\<close>: "strategy must be 'low_intensity' or 'max_renewable'".
\<close>

datatype message = ci_length_msg nat | renewable_required_msg | strategy_msg

datatype error = ValueError message | KeyError

record 'k scenario =
  index :: "'k list"
  ci :: "float64 list"
  baseline_load :: "float64 list"
  shifted_load :: "float64 list"
  baseline_emissions :: "float64 list"
  shifted_emissions :: "float64 list"
  total_baseline_emissions :: float64
  total_shifted_emissions :: float64
  relative_reduction :: float64

text \<open>\<^verbatim>\<open>s.loc[labels]\<close>: the rows of every label, in the order of the labels.\<close>

definition series_loc :: "'k series \<Rightarrow> 'k list \<Rightarrow> error + 'k series" where
  "series_loc s labels =
    (if list_all (\<lambda>k. k \<in> set (map fst s)) labels
     then Inr (concat (map (\<lambda>k. filter (\<lambda>(k', v). k' = k) s) labels))
     else Inl KeyError)"

text \<open>Lines 85 to 88: the renewable share is looked at under \<^verbatim>\<open>max_renewable\<close> only.\<close>

definition align_renewable_share ::
  "string \<Rightarrow> ('k::linorder) series option \<Rightarrow> 'k list \<Rightarrow> error + 'k series option" where
  "align_renewable_share strategy renewable_share index' =
    (if strategy = ''max_renewable'' then
       (case renewable_share of
          None \<Rightarrow> Inl (ValueError renewable_required_msg)
        | Some rs \<Rightarrow>
            (case series_loc rs index' of
               Inl e \<Rightarrow> Inl e
             | Inr aligned \<Rightarrow> Inr (Some (sort_index aligned))))
     else Inr renewable_share)"

text \<open>
  Lines 100 to 107. \<^verbatim>\<open>Series.sort_values\<close> is the library's: the scenario calls it
  with its default \<^verbatim>\<open>kind\<close>, so it is a parameter here, \<open>sort_values ascending s\<close>.
  Under \<^verbatim>\<open>max_renewable\<close> the share is there, line 86 has raised otherwise.
\<close>

definition choose_target_hours ::
  "(bool \<Rightarrow> 'k series \<Rightarrow> 'k series) \<Rightarrow> string \<Rightarrow> 'k series \<Rightarrow> 'k series option \<Rightarrow> int
     \<Rightarrow> error + 'k list" where
  "choose_target_hours sort_values strategy ci_series renewable_share n_target_hours =
    (if strategy = ''low_intensity'' then
       Inr (slice_to n_target_hours (series_index (sort_values True ci_series)))
     else if strategy = ''max_renewable'' then
       (case renewable_share of
          Some sort_key' \<Rightarrow>
            Inr (slice_to n_target_hours (series_index (sort_values False sort_key')))
        | None \<Rightarrow> Inl (ValueError renewable_required_msg))
     else Inl (ValueError strategy_msg))"

text \<open>Line 113, \<^verbatim>\<open>shifted_flex[ts] += per_hour\<close>, and the loop around it.\<close>

definition add_at :: "float64 \<Rightarrow> 'k \<Rightarrow> 'k series \<Rightarrow> 'k series" where
  "add_at per_hour ts s = map (\<lambda>(k, v). if k = ts then (k, fadd v per_hour) else (k, v)) s"

definition allocate_flex :: "float64 \<Rightarrow> 'k list \<Rightarrow> 'k series \<Rightarrow> 'k series" where
  "allocate_flex per_hour target_hours shifted_flex = fold (add_at per_hour) target_hours shifted_flex"

definition run_shift_scenario ::
  "(bool \<Rightarrow> 'k series \<Rightarrow> 'k series) \<Rightarrow> ('k::linorder) series \<Rightarrow> float64 \<Rightarrow> float64 \<Rightarrow> string
     \<Rightarrow> 'k series option \<Rightarrow> int \<Rightarrow> error + 'k scenario" where
  "run_shift_scenario sort_values ci_series0 daily_kwh flexible_share strategy renewable_share0
      n_target_hours =
    (let ci_series = sort_index ci_series0 in
     if length ci_series \<noteq> 24 then Inl (ValueError (ci_length_msg (length ci_series)))
     else
       let index' = series_index ci_series in
       case align_renewable_share strategy renewable_share0 index' of
         Inl e \<Rightarrow> Inl e
       | Inr renewable_share \<Rightarrow>
           let base_profile = make_household_profile daily_kwh;
               baseline_load' = zip index' (series_values base_profile);
               nonflex_load = series_map (\<lambda>v. fmul v (fsub (Finite 1) flexible_share)) baseline_load';
               flex_load = series_map (\<lambda>v. fmul v flexible_share) baseline_load';
               total_flex_energy = pd_sum (series_values flex_load)
           in
           (case choose_target_hours sort_values strategy ci_series renewable_share n_target_hours of
             Inl e \<Rightarrow> Inl e
           | Inr target_hours \<Rightarrow>
               let shifted_flex0 = map (\<lambda>k. (k, Finite 0)) index';
                   per_hour = fdiv total_flex_energy (Finite (real (length target_hours)));
                   shifted_flex = allocate_flex per_hour target_hours shifted_flex0;
                   shifted_load' = series_add nonflex_load shifted_flex;
                   ci_array = series_values ci_series;
                   baseline_emissions' = map2 fmul (series_values baseline_load') ci_array;
                   shifted_emissions' = map2 fmul (series_values shifted_load') ci_array;
                   total_baseline_emissions' = np_sum baseline_emissions';
                   total_shifted_emissions' = np_sum shifted_emissions';
                   relative_reduction' =
                     fdiv (fsub total_baseline_emissions' total_shifted_emissions')
                       total_baseline_emissions'
               in Inr \<lparr>index = index',
                       ci = ci_array,
                       baseline_load = series_values baseline_load',
                       shifted_load = series_values shifted_load',
                       baseline_emissions = baseline_emissions',
                       shifted_emissions = shifted_emissions',
                       total_baseline_emissions = total_baseline_emissions',
                       total_shifted_emissions = total_shifted_emissions',
                       relative_reduction = relative_reduction'\<rparr>))"

text \<open>
  The local \<^verbatim>\<open>target_hours\<close> of the scenario is not in the dictionary it returns. This is
  that local on its own: lines 79 to 88 and 100 to 107, as \<open>run_shift_scenario\<close> has them.
\<close>

definition scenario_target_hours ::
  "(bool \<Rightarrow> 'k series \<Rightarrow> 'k series) \<Rightarrow> ('k::linorder) series \<Rightarrow> string \<Rightarrow> 'k series option \<Rightarrow> int
     \<Rightarrow> error + 'k list" where
  "scenario_target_hours sort_values ci_series0 strategy renewable_share0 n_target_hours =
    (let ci_series = sort_index ci_series0 in
     if length ci_series \<noteq> 24 then Inl (ValueError (ci_length_msg (length ci_series)))
     else
       case align_renewable_share strategy renewable_share0 (series_index ci_series) of
         Inl e \<Rightarrow> Inl e
       | Inr renewable_share \<Rightarrow>
           choose_target_hours sort_values strategy ci_series renewable_share n_target_hours)"

subsection \<open>What the library's sort gives\<close>

text \<open>
  \<^verbatim>\<open>sort_values\<close> returns the rows of the series in the order of their values,
  ascending or descending.
\<close>

definition sorts_values :: "(bool \<Rightarrow> 'k series \<Rightarrow> 'k series) \<Rightarrow> bool" where
  "sorts_values sort_values \<longleftrightarrow>
    (\<forall>ascending s.
       mset (sort_values ascending s) = mset s \<and>
       (NaN \<notin> set (series_values s) \<longrightarrow>
          sorted_wrt (\<lambda>a b. if ascending then fle (snd a) (snd b) else fle (snd b) (snd a))
            (sort_values ascending s)))"


text \<open>The place of a value in the order; NaN is last both ways.\<close>

fun sort_rank :: "bool \<Rightarrow> float64 \<Rightarrow> int \<times> real" where
  "sort_rank ascending (Finite a) = (0, if ascending then a else - a)"
| "sort_rank ascending PosInf = (if ascending then 1 else - 1, 0)"
| "sort_rank ascending NegInf = (if ascending then - 1 else 1, 0)"
| "sort_rank ascending NaN = (2, 0)"

text \<open>A sort that does both: insertion sort by the value.\<close>

definition stable_sort_values :: "bool \<Rightarrow> 'k series \<Rightarrow> 'k series" where
  "stable_sort_values ascending s = sort_key (\<lambda>(k, v). sort_rank ascending v) s"

subsection \<open>Valid inputs\<close>

text \<open>
  A day's series has 24 rows with distinct timestamps and finite values; the daily energy
  is finite and positive, the flexible share a number in \<open>[0,1]\<close>.
\<close>

definition valid_day :: "'k series \<Rightarrow> bool" where
  "valid_day s \<longleftrightarrow> length s = 24 \<and> distinct (map fst s) \<and> list_all is_finite (map snd s)"

text \<open>A renewable share for the day of \<open>ci_series\<close>: the same timestamps.\<close>

definition valid_share :: "'k series \<Rightarrow> 'k series \<Rightarrow> bool" where
  "valid_share ci_series rs \<longleftrightarrow> valid_day rs \<and> set (map fst rs) = set (map fst ci_series)"

definition valid_strategy :: "string \<Rightarrow> 'k series \<Rightarrow> 'k series option \<Rightarrow> bool" where
  "valid_strategy strategy ci_series renewable_share \<longleftrightarrow>
     strategy = ''low_intensity'' \<or>
     (strategy = ''max_renewable'' \<and>
      (case renewable_share of None \<Rightarrow> False | Some rs \<Rightarrow> valid_share ci_series rs))"

definition valid_energy :: "float64 \<Rightarrow> bool" where
  "valid_energy daily_kwh \<longleftrightarrow> (case daily_kwh of Finite d \<Rightarrow> 0 < d | _ \<Rightarrow> False)"

definition valid_fraction :: "float64 \<Rightarrow> bool" where
  "valid_fraction flexible_share \<longleftrightarrow>
     (case flexible_share of Finite y \<Rightarrow> 0 \<le> y \<and> y \<le> 1 | _ \<Rightarrow> False)"

subsection \<open>Some days\<close>

text \<open>A day of 23 hours, a flat day, a day of zero intensity, and an ordinary day.\<close>

definition short_day :: "nat series" where
  "short_day = map (\<lambda>h. (h, Finite 100)) [0..<23]"


definition zero_day :: "nat series" where
  "zero_day = map (\<lambda>h. (h, Finite 0)) [0..<24]"

text \<open>
  A day whose baseline emissions cancel: hours 0 and 4 carry the same load, the intensity is
  100 at hour 0, -100 at hour 4 and 0 at every other hour.
\<close>

definition balanced_day :: "nat series" where
  "balanced_day = map (\<lambda>h. (h, Finite (if h = 0 then 100 else if h = 4 then - 100 else 0))) [0..<24]"

text \<open>
  Another one: hour 10 carries twice the load of hour 0, the intensity is 200 at hour 0,
  -100 at hour 10 and 0 at every other hour.
\<close>

definition tilted_day :: "nat series" where
  "tilted_day = map (\<lambda>h. (h, Finite (if h = 0 then 200 else if h = 10 then - 100 else 0))) [0..<24]"

definition sample_day :: "nat series" where
  "sample_day = zip [0..<24] (map Finite
     [210, 200, 150, 140, 145, 155, 190, 230, 260, 255, 240, 235,
      225, 220, 230, 245, 270, 300, 310, 295, 280, 260, 240, 220])"

definition sample_share :: "nat series" where
  "sample_share = zip [0..<24] (map Finite
     [0.30, 0.31, 0.33, 0.35, 0.34, 0.32, 0.30, 0.28, 0.27, 0.33, 0.41, 0.52,
      0.58, 0.61, 0.55, 0.44, 0.36, 0.29, 0.25, 0.24, 0.26, 0.27, 0.28, 0.29])"

text \<open>A day's frame in which hour 3 has no generation at all.\<close>

definition zero_generation_day :: "(nat \<times> generation_row) list" where
  "zero_generation_day =
     map (\<lambda>h. (h, \<lparr>RENEWABLE = Finite (if h = 3 then 0 else 120),
                   GENERATION = Finite (if h = 3 then 0 else 300)\<rparr>)) [0..<24]"

section \<open>Lemmas\<close>

subsection \<open>Sums and the profile\<close>

lemma foldl_fadd_Finite: "foldl fadd (Finite a) (map Finite xs) = Finite (a + sum_list xs)"
  by (induction xs arbitrary: a) (simp_all add: add.assoc)

lemma np_sum_Finite: "np_sum (map Finite xs) = Finite (sum_list xs)"
  by (simp add: np_sum_def foldl_fadd_Finite)

lemma raw_sum: "sum_list HOUSEHOLD_PROFILE_RAW = 1302 / 100"
  by (simp add: HOUSEHOLD_PROFILE_RAW_def)

lemma raw_length: "length HOUSEHOLD_PROFILE_RAW = 24"
  by (simp add: HOUSEHOLD_PROFILE_RAW_def)

lemma profile_values:
  "series_values (make_household_profile (Finite d)) =
     map (\<lambda>w. Finite (w * (d / sum_list HOUSEHOLD_PROFILE_RAW))) HOUSEHOLD_PROFILE_RAW"
  by (simp add: make_household_profile_def series_values_def Let_def np_sum_Finite raw_sum
      raw_length o_def)

lemma sum_list_scale: "sum_list (map (\<lambda>w. w * c) xs) = sum_list xs * (c::real)"
  by (induction xs) (simp_all add: algebra_simps)

subsection \<open>Series, labels and the loop\<close>

lemma fadd_zero_right: "fadd v (Finite 0) = v"
  by (cases v) simp_all

lemma fadd_zero_left: "fadd (Finite 0) v = v"
  by (cases v) simp_all

lemma fmul_one_right: "fmul v (Finite 1) = v"
  by (cases v) (simp_all add: inf_times_def)

lemma mset_sort_index: "mset (sort_index s) = mset s"
  by (simp add: sort_index_def)

lemma length_sort_index: "length (sort_index s) = length s"
  by (simp add: sort_index_def)

lemma set_sort_index: "set (sort_index s) = set s"
  by (simp add: sort_index_def)

lemma perm_labels:
  assumes "mset L = mset K"
  shows "mset (map fst L) = mset (map fst K)"
  using assms by (metis mset_map)

lemma perm_distinct_labels:
  assumes "mset L = mset K" and "distinct (map fst K)"
  shows "distinct (map fst L)"
  using perm_labels[OF assms(1)] assms(2) by (metis mset_eq_imp_distinct_iff)

lemma perm_set_labels:
  assumes "mset L = mset K"
  shows "set (map fst L) = set (map fst K)"
  using perm_labels[OF assms] by (metis set_mset_mset)

lemma perm_length:
  assumes "mset L = mset K"
  shows "length L = length K"
  using assms by (metis size_mset)

lemma valid_day_sort_index: "valid_day s \<Longrightarrow> valid_day (sort_index s)"
  unfolding valid_day_def
  using perm_distinct_labels[OF mset_sort_index, of s]
  by (simp add: length_sort_index set_sort_index list_all_iff)

lemma filter_label:
  assumes "distinct (map fst r)" and "(k, v) \<in> set r"
  shows "filter (\<lambda>(k', v'). k' = k) r = [(k, v)]"
  using assms
proof (induction r)
  case Nil
  then show ?case by simp
next
  case (Cons a r)
  obtain k0 v0 where a: "a = (k0, v0)" by (cases a)
  show ?case
  proof (cases "k0 = k")
    case True
    with Cons.prems a have "v0 = v" by (auto simp: image_iff)
    moreover from Cons.prems a True have "filter (\<lambda>(k', v'). k' = k) r = []"
      by (auto simp: filter_empty_conv image_iff)
    ultimately show ?thesis using a True by simp
  next
    case False
    with Cons a show ?thesis by auto
  qed
qed

lemma fold_add_at:
  "distinct T \<Longrightarrow>
   fold (add_at p) T (map (\<lambda>k. (k, g k)) idx) =
     map (\<lambda>k. (k, if k \<in> set T then fadd (g k) p else g k)) idx"
proof (induction T arbitrary: g)
  case Nil
  then show ?case by simp
next
  case (Cons t T)
  have step: "add_at p t (map (\<lambda>k. (k, g k)) idx) =
      map (\<lambda>k. (k, (\<lambda>k. if k = t then fadd (g k) p else g k) k)) idx"
    by (simp add: add_at_def)
  from Cons.prems have "distinct T" and "t \<notin> set T" by simp_all
  then show ?case
    using Cons.IH[of "\<lambda>k. if k = t then fadd (g k) p else g k"]
    by (auto simp only: fold_simps step map_eq_conv set_simps split: if_splits)
qed

lemma allocate_flex_zero:
  "distinct T \<Longrightarrow>
   allocate_flex p T (map (\<lambda>k. (k, Finite 0)) idx) =
     map (\<lambda>k. (k, if k \<in> set T then p else Finite 0)) idx"
  unfolding allocate_flex_def
  using fold_add_at[of T p "\<lambda>k. Finite 0" idx] by (simp add: fadd_zero_left)

lemma series_add_shape:
  assumes "length idx = length P"
  shows "series_values (series_add (series_map f1 (zip idx P)) (map (\<lambda>k. (k, g k)) idx)) =
     map (\<lambda>(k, b). fadd (f1 b) (g k)) (zip idx P)"
  using assms
  by (induction idx P rule: list_induct2) (simp_all add: series_values_def series_add_def series_map_def)

subsection \<open>The stages of the scenario\<close>

lemma length_profile_values: "length (series_values (make_household_profile d)) = 24"
  by (simp add: make_household_profile_def series_values_def Let_def raw_length)

lemma series_map_values:
  assumes "length idx = length P"
  shows "series_values (series_map g (zip idx P)) = map g P"
  using assms
  by (induction idx P rule: list_induct2) (simp_all add: series_values_def series_map_def)

lemma series_loc_aligned:
  assumes "distinct (map fst r)" and "set idx \<subseteq> set (map fst r)"
  shows "series_loc r idx = Inr (map (\<lambda>k. (k, the (map_of r k))) idx)"
proof -
  have row: "(k, the (map_of r k)) \<in> set r" if "k \<in> set idx" for k
  proof -
    from that assms(2) obtain v where "(k, v) \<in> set r" by auto
    with assms(1) have "map_of r k = Some v" by simp
    with \<open>(k, v) \<in> set r\<close> show ?thesis by simp
  qed
  have "concat (map (\<lambda>k. filter (\<lambda>(k', v). k' = k) r) idx) =
      map (\<lambda>k. (k, the (map_of r k))) idx"
    using row
  proof (induction idx)
    case Nil
    then show ?case by simp
  next
    case (Cons k idx)
    then show ?case using filter_label[OF assms(1), of k "the (map_of r k)"] by simp
  qed
  moreover have "list_all (\<lambda>k. k \<in> set (map fst r)) idx"
    using assms(2) by (auto simp: list_all_iff)
  ultimately show ?thesis by (simp add: series_loc_def)
qed

lemma aligned_rows:
  assumes "distinct (map fst r)" and "set idx = set (map fst r)"
  shows "set (map (\<lambda>k. (k, the (map_of r k))) idx) = set r"
proof
  show "set (map (\<lambda>k. (k, the (map_of r k))) idx) \<subseteq> set r"
  proof
    fix x assume "x \<in> set (map (\<lambda>k. (k, the (map_of r k))) idx)"
    then obtain k where k: "k \<in> set idx" and x: "x = (k, the (map_of r k))" by auto
    from k assms(2) obtain v where "(k, v) \<in> set r" by auto
    with assms(1) have "map_of r k = Some v" by simp
    with \<open>(k, v) \<in> set r\<close> x show "x \<in> set r" by simp
  qed
  show "set r \<subseteq> set (map (\<lambda>k. (k, the (map_of r k))) idx)"
  proof
    fix x assume xr: "x \<in> set r"
    obtain k v where x: "x = (k, v)" by (cases x)
    with xr assms(1) have "map_of r k = Some v" by simp
    moreover from xr x assms(2) have "k \<in> set idx" by force
    ultimately show "x \<in> set (map (\<lambda>k. (k, the (map_of r k))) idx)" using x by force
  qed
qed

lemma targets_exist:
  assumes day: "valid_day cs" and strat: "valid_strategy strategy cs rs"
  shows "\<exists>rs' K asc.
     align_renewable_share strategy rs (series_index (sort_index cs)) = Inr rs' \<and>
     choose_target_hours sv strategy (sort_index cs) rs' n =
       Inr (slice_to n (series_index (sv asc K))) \<and>
     length K = 24 \<and> distinct (map fst K) \<and> set (map fst K) = set (map fst cs) \<and>
     NaN \<notin> set (series_values K) \<and>
     (asc \<longleftrightarrow> strategy = ''low_intensity'') \<and>
     set K = (if asc then set cs else set (the rs)) \<and> sorted (map fst K)"
proof (cases "strategy = ''low_intensity''")
  case True
  let ?K = "sort_index cs"
  from day have v: "valid_day ?K" by (rule valid_day_sort_index)
  have "align_renewable_share strategy rs (series_index ?K) = Inr rs"
    using True by (simp add: align_renewable_share_def)
  moreover have "choose_target_hours sv strategy ?K rs n =
      Inr (slice_to n (series_index (sv True ?K)))"
    using True by (simp add: choose_target_hours_def)
  moreover have "NaN \<notin> set (series_values ?K)"
    using v by (auto simp: valid_day_def series_values_def list_all_iff)
  moreover have "set (map fst ?K) = set (map fst cs)"
    by (simp add: set_sort_index)
  moreover have "sorted (map fst ?K)"
    by (simp add: sort_index_def)
  ultimately show ?thesis
    using v True unfolding valid_day_def
    by (intro exI[of _ rs] exI[of _ ?K] exI[of _ True]) (simp add: set_sort_index)
next
  case False
  with strat obtain r where m: "strategy = ''max_renewable''" and rs: "rs = Some r"
    and share: "valid_share cs r"
    by (auto simp: valid_strategy_def split: option.splits)
  let ?idx = "series_index (sort_index cs)"
  let ?A = "map (\<lambda>k. (k, the (map_of r k))) ?idx"
  let ?K = "sort_index ?A"
  from share have dr: "distinct (map fst r)" and lr: "length r = 24"
    and fr: "list_all is_finite (map snd r)"
    and labels: "set (map fst r) = set (map fst cs)"
    by (simp_all add: valid_share_def valid_day_def)
  have idx_set: "set ?idx = set (map fst r)"
    using labels by (simp add: series_index_def set_sort_index)
  have loc: "series_loc r ?idx = Inr ?A"
    using series_loc_aligned[OF dr] idx_set by simp
  have rows: "set ?K = set r"
    using aligned_rows[OF dr idx_set] by (simp add: set_sort_index)
  have "map fst ?A = ?idx" by (simp add: o_def)
  moreover from day have "distinct ?idx" and "length ?idx = 24"
    using valid_day_sort_index[OF day] by (simp_all add: valid_day_def series_index_def)
  ultimately have dA: "distinct (map fst ?A)" and lA: "length ?A = 24"
    by simp_all
  have dK: "distinct (map fst ?K)"
    using perm_distinct_labels[OF mset_sort_index dA] .
  have lK: "length ?K = 24" using lA by (simp add: length_sort_index)
  have "align_renewable_share strategy rs ?idx = Inr (Some ?K)"
    using m rs loc by (simp add: align_renewable_share_def)
  moreover have "choose_target_hours sv strategy (sort_index cs) (Some ?K) n =
      Inr (slice_to n (series_index (sv False ?K)))"
    using m by (simp add: choose_target_hours_def)
  moreover have "NaN \<notin> set (series_values ?K)"
    using fr rows by (auto simp: series_values_def list_all_iff)
  moreover have "set (map fst ?K) = set (map fst cs)"
    using rows labels by simp
  moreover have "sorted (map fst ?K)"
    by (simp add: sort_index_def)
  ultimately show ?thesis
    using dK lK rows False rs
    by (intro exI[of _ "Some ?K"] exI[of _ ?K] exI[of _ False]) simp
qed

lemma run_shape:
  assumes al: "align_renewable_share strategy rs (series_index (sort_index cs)) = Inr rs'"
    and ch: "choose_target_hours sv strategy (sort_index cs) rs' n = Inr T"
    and len: "length cs = 24" and dT: "distinct T"
  shows "\<exists>r. run_shift_scenario sv cs d f strategy rs n = Inr r \<and>
     index r = series_index (sort_index cs) \<and>
     ci r = series_values (sort_index cs) \<and>
     baseline_load r = series_values (make_household_profile d) \<and>
     shifted_load r =
       map (\<lambda>(k, b). if k \<in> set T
                      then fadd (fmul b (fsub (Finite 1) f))
                             (fdiv (pd_sum (map (\<lambda>b. fmul b f) (series_values (make_household_profile d))))
                                (Finite (real (length T))))
                      else fmul b (fsub (Finite 1) f))
         (zip (series_index (sort_index cs)) (series_values (make_household_profile d))) \<and>
     total_baseline_emissions r = np_sum (map2 fmul (baseline_load r) (ci r)) \<and>
     total_shifted_emissions r = np_sum (map2 fmul (shifted_load r) (ci r)) \<and>
     relative_reduction r =
       fdiv (fsub (total_baseline_emissions r) (total_shifted_emissions r))
         (total_baseline_emissions r)"
proof -
  let ?idx = "series_index (sort_index cs)"
  let ?P = "series_values (make_household_profile d)"
  let ?p = "fdiv (pd_sum (map (\<lambda>b. fmul b f) ?P)) (Finite (real (length T)))"
  have li: "length ?idx = length ?P"
    using len by (simp add: series_index_def length_sort_index length_profile_values)
  have base: "series_values (zip ?idx ?P) = ?P"
    using li by (simp add: series_values_def)
  have flex: "series_values (series_map (\<lambda>v. fmul v f) (zip ?idx ?P)) = map (\<lambda>b. fmul b f) ?P"
    using li by (rule series_map_values)
  have alloc: "allocate_flex ?p T (map (\<lambda>k. (k, Finite 0)) ?idx) =
      map (\<lambda>k. (k, if k \<in> set T then ?p else Finite 0)) ?idx"
    using dT by (rule allocate_flex_zero)
  have shifted: "series_values (series_add
        (series_map (\<lambda>v. fmul v (fsub (Finite 1) f)) (zip ?idx ?P))
        (map (\<lambda>k. (k, if k \<in> set T then ?p else Finite 0)) ?idx)) =
      map (\<lambda>(k, b). if k \<in> set T then fadd (fmul b (fsub (Finite 1) f)) ?p
                     else fmul b (fsub (Finite 1) f)) (zip ?idx ?P)"
    using series_add_shape[OF li, of "\<lambda>v. fmul v (fsub (Finite 1) f)"
        "\<lambda>k. if k \<in> set T then ?p else Finite 0"]
    by (simp add: fadd_zero_right if_distrib cong: if_cong)
  show ?thesis
    using len al ch
    by (simp add: run_shift_scenario_def Let_def length_sort_index base flex alloc shifted)
qed

subsection \<open>The days are valid\<close>

lemma valid_sample_day: "valid_day sample_day"
  by (simp add: valid_day_def sample_day_def upt_rec)


lemma valid_zero_day: "valid_day zero_day"
  by (simp add: valid_day_def zero_day_def upt_rec)

lemma valid_sample_share: "valid_share sample_day sample_share"
  by (simp add: valid_share_def valid_day_def sample_day_def sample_share_def upt_rec)

lemma length_short_day: "length short_day = 23"
  by (simp add: short_day_def)

subsection \<open>The stable sort sorts\<close>

lemma sort_rank_le:
  assumes "v \<noteq> NaN" and "v' \<noteq> NaN" and "sort_rank asc v \<le> sort_rank asc v'"
  shows "if asc then fle v v' else fle v' v"
  using assms by (cases v; cases v'; cases asc) (simp_all add: less_eq_prod_def)

lemma sorted_by_rank:
  assumes "NaN \<notin> set (series_values s)"
  shows "sorted_wrt (\<lambda>a b. if asc then fle (snd a) (snd b) else fle (snd b) (snd a))
           (sort_key (\<lambda>(k, v). sort_rank asc v) s)"
proof -
  let ?key = "\<lambda>(k, v). sort_rank asc v"
  let ?L = "sort_key ?key s"
  have "sorted (map ?key ?L)" by (rule sorted_sort_key)
  then have "sorted_wrt (\<lambda>a b. ?key a \<le> ?key b) ?L"
    by (simp add: sorted_map)
  moreover have "if asc then fle (snd a) (snd b) else fle (snd b) (snd a)"
    if "a \<in> set ?L" and "b \<in> set ?L" and "?key a \<le> ?key b" for a b
  proof -
    from that assms have "snd a \<noteq> NaN" and "snd b \<noteq> NaN"
      by (auto simp: series_values_def image_iff)
    with that(3) show ?thesis
      using sort_rank_le[of "snd a" "snd b" asc] by (simp add: split_def)
  qed
  ultimately show ?thesis
    by (rule sorted_wrt_mono_rel[rotated])
qed

lemma stable_sort_values_sorts: "sorts_values stable_sort_values"
  unfolding sorts_values_def
proof (intro allI conjI impI)
  fix asc and s :: "'a series"
  show "mset (stable_sort_values asc s) = mset s"
    by (simp add: stable_sort_values_def)
  assume "NaN \<notin> set (series_values s)"
  then show "sorted_wrt (\<lambda>a b. if asc then fle (snd a) (snd b) else fle (snd b) (snd a))
      (stable_sort_values asc s)"
    unfolding stable_sort_values_def by (rule sorted_by_rank)
qed

lemma slice_to_take: "\<exists>m. slice_to n xs = take m xs"
  by (auto simp: slice_to_def)

lemma same_label_same_value:
  assumes "distinct (map fst L)" and "(h, v) \<in> set L" and "(h, w) \<in> set L"
  shows "v = w"
  using assms by (metis map_of_eq_Some_iff option.inject)

lemma prefix_partition:
  assumes sorted: "sorted_wrt R L" and d: "distinct (map fst L)"
    and a: "(h, v) \<in> set L" and b: "(h', v') \<in> set L"
    and inT: "h \<in> set (map fst (take m L))" and out: "h' \<notin> set (map fst (take m L))"
  shows "R (h, v) (h', v')"
proof -
  from inT obtain w where w: "(h, w) \<in> set (take m L)" by auto
  then have "(h, w) \<in> set L" by (rule in_set_takeD)
  with d a have "w = v" by (metis same_label_same_value)
  with w have x: "(h, v) \<in> set (take m L)" by simp
  from out have "(h', v') \<notin> set (take m L)" by force
  with b have y: "(h', v') \<in> set (drop m L)"
    by (metis Un_iff append_take_drop_id set_append)
  from sorted have "sorted_wrt R (take m L @ drop m L)" by simp
  then show ?thesis using x y unfolding sorted_wrt_append by blast
qed

subsection \<open>The target hours and the sums\<close>

lemma targets_facts:
  assumes sv: "sorts_values sv" and day: "valid_day cs" and strat: "valid_strategy strategy cs rs"
  shows "\<exists>rs' T L.
     align_renewable_share strategy rs (series_index (sort_index cs)) = Inr rs' \<and>
     choose_target_hours sv strategy (sort_index cs) rs' n = Inr T \<and>
     scenario_target_hours sv cs strategy rs n = Inr T \<and>
     T = slice_to n L \<and> distinct L \<and> set L = set (map fst cs) \<and> length L = 24 \<and>
     (if strategy = ''low_intensity''
      then \<forall>(h, v) \<in> set cs. \<forall>(h', v') \<in> set cs. h \<in> set T \<and> h' \<notin> set T \<longrightarrow> fle v v'
      else \<forall>(h, v) \<in> set (the rs). \<forall>(h', v') \<in> set (the rs).
             h \<in> set T \<and> h' \<notin> set T \<longrightarrow> fle v' v)"
proof -
  from targets_exist[OF day strat, of sv n]
  obtain rs' K asc where
    al: "align_renewable_share strategy rs (series_index (sort_index cs)) = Inr rs'" and
    ch: "choose_target_hours sv strategy (sort_index cs) rs' n =
           Inr (slice_to n (series_index (sv asc K)))" and
    lK: "length K = 24" and dK: "distinct (map fst K)" and
    sK: "set (map fst K) = set (map fst cs)" and nan: "NaN \<notin> set (series_values K)" and
    asc: "asc \<longleftrightarrow> strategy = ''low_intensity''" and
    rows: "set K = (if asc then set cs else set (the rs))"
    by blast
  let ?L' = "sv asc K"
  let ?L = "series_index ?L'"
  let ?T = "slice_to n ?L"
  let ?R = "\<lambda>a b. if asc then fle (snd a) (snd b) else fle (snd b) (snd a)"
  from sv have perm: "mset ?L' = mset K" and sorted: "sorted_wrt ?R ?L'"
    using nan by (simp_all add: sorts_values_def)
  have dL: "distinct (map fst ?L')" using perm dK by (rule perm_distinct_labels)
  have sL: "set (map fst ?L') = set (map fst cs)" using perm_set_labels[OF perm] sK by simp
  have lL: "length ?L' = 24" using perm_length[OF perm] lK by simp
  have rowsL: "set ?L' = set K" using perm by (metis set_mset_mset)
  from day have "length (sort_index cs) = 24" by (simp add: valid_day_def length_sort_index)
  then have st: "scenario_target_hours sv cs strategy rs n = Inr ?T"
    using al ch by (simp add: scenario_target_hours_def Let_def)
  obtain m where m: "?T = take m ?L" using slice_to_take by blast
  then have Tm: "set ?T = set (map fst (take m ?L'))" by (simp add: series_index_def take_map)
  have part: "?R (h, v) (h', v')"
    if "(h, v) \<in> set K" and "(h', v') \<in> set K" and "h \<in> set ?T" and "h' \<notin> set ?T"
    for h v h' v'
    using prefix_partition[OF sorted dL, of h v h' v' m] that rowsL Tm by simp
  have "if strategy = ''low_intensity''
      then \<forall>(h, v) \<in> set cs. \<forall>(h', v') \<in> set cs. h \<in> set ?T \<and> h' \<notin> set ?T \<longrightarrow> fle v v'
      else \<forall>(h, v) \<in> set (the rs). \<forall>(h', v') \<in> set (the rs).
             h \<in> set ?T \<and> h' \<notin> set ?T \<longrightarrow> fle v' v"
  proof (cases "strategy = ''low_intensity''")
    case True
    with asc rows have "set K = set cs" and "asc" by simp_all
    with part True show ?thesis by fastforce
  next
    case False
    with asc rows have "set K = set (the rs)" and "\<not> asc" by simp_all
    with part False show ?thesis by fastforce
  qed
  then show ?thesis
    using al ch st dL sL lL
    by - (rule exI[of _ rs'], rule exI[of _ ?T], rule exI[of _ ?L], simp add: series_index_def)
qed

lemma pd_sum_Finite: "pd_sum (map Finite xs) = Finite (sum_list xs)"
proof -
  have "filter (\<lambda>v. v \<noteq> NaN) (map Finite xs) = map Finite xs"
    by (simp add: filter_id_conv)
  then show ?thesis by (simp add: pd_sum_def np_sum_Finite)
qed

lemma count_targets:
  assumes "distinct idx" and "distinct T" and "set T \<subseteq> set idx"
  shows "length (filter (\<lambda>k. k \<in> set T) idx) = length T"
proof -
  have "length (filter (\<lambda>k. k \<in> set T) idx) = card ({k. k \<in> set T} \<inter> set idx)"
    using assms(1) by (rule distinct_length_filter)
  also have "{k. k \<in> set T} \<inter> set idx = set T" using assms(3) by auto
  also have "card (set T) = length T" using assms(2) by (rule distinct_card)
  finally show ?thesis .
qed

lemma sum_with_bonus:
  assumes "length idx = length Pr"
  shows "sum_list (map (\<lambda>(k, b). if k \<in> S then g b + q else g b) (zip idx Pr)) =
     sum_list (map g Pr) + q * real (length (filter (\<lambda>k. k \<in> S) idx))"
  using assms
  by (induction idx Pr rule: list_induct2) (simp_all add: algebra_simps)

lemma shifted_shape:
  assumes "T \<noteq> []"
  shows "map (\<lambda>(k, b). if k \<in> set T
                  then fadd (fmul b (fsub (Finite 1) (Finite y)))
                         (fdiv (pd_sum (map (\<lambda>b. fmul b (Finite y)) (map Finite Pr)))
                            (Finite (real (length T))))
                  else fmul b (fsub (Finite 1) (Finite y)))
       (zip idx (map Finite Pr)) =
     map Finite (map (\<lambda>(k, b). if k \<in> set T
                        then b * (1 - y) + sum_list Pr * y / real (length T)
                        else b * (1 - y)) (zip idx Pr))"
proof -
  have "map (\<lambda>b. fmul b (Finite y)) (map Finite Pr) = map Finite (map (\<lambda>b. b * y) Pr)"
    by simp
  then have "pd_sum (map (\<lambda>b. fmul b (Finite y)) (map Finite Pr)) =
      Finite (sum_list (map (\<lambda>b. b * y) Pr))"
    by (simp only: pd_sum_Finite)
  then have pd: "pd_sum (map (\<lambda>b. fmul b (Finite y)) (map Finite Pr)) = Finite (sum_list Pr * y)"
    by (simp only: sum_list_scale)
  from assms have "real (length T) \<noteq> 0" by simp
  then have p: "fdiv (pd_sum (map (\<lambda>b. fmul b (Finite y)) (map Finite Pr)))
      (Finite (real (length T))) = Finite (sum_list Pr * y / real (length T))"
    unfolding pd by simp
  show ?thesis
    unfolding p by (simp add: zip_map2 fsub_def split_def)
qed

lemma shifted_sum:
  assumes len: "length idx = length Pr" and di: "distinct idx" and dT: "distinct T"
    and sub: "set T \<subseteq> set idx" and ne: "T \<noteq> []"
  shows "np_sum (map (\<lambda>(k, b). if k \<in> set T
                  then fadd (fmul b (fsub (Finite 1) (Finite y)))
                         (fdiv (pd_sum (map (\<lambda>b. fmul b (Finite y)) (map Finite Pr)))
                            (Finite (real (length T))))
                  else fmul b (fsub (Finite 1) (Finite y)))
       (zip idx (map Finite Pr))) = np_sum (map Finite Pr)"
proof -
  let ?q = "sum_list Pr * y / real (length T)"
  from ne have m: "real (length T) \<noteq> 0" by simp
  have "sum_list (map (\<lambda>(k, b). if k \<in> set T then b * (1 - y) + ?q else b * (1 - y)) (zip idx Pr)) =
      sum_list (map (\<lambda>b. b * (1 - y)) Pr) + ?q * real (length (filter (\<lambda>k. k \<in> set T) idx))"
    using len by (rule sum_with_bonus)
  also have "\<dots> = sum_list Pr * (1 - y) + ?q * real (length T)"
    by (simp only: sum_list_scale count_targets[OF di dT sub])
  also have "\<dots> = sum_list Pr"
    using m by (simp add: algebra_simps)
  finally show ?thesis
    unfolding shifted_shape[OF ne] by (simp only: np_sum_Finite)
qed

lemma profile_real:
  "series_values (make_household_profile (Finite x)) =
     map Finite (map (\<lambda>w. w * (x / sum_list HOUSEHOLD_PROFILE_RAW)) HOUSEHOLD_PROFILE_RAW)"
  by (simp add: profile_values o_def)

subsection \<open>The scenario as a whole\<close>

lemma scenario_runs:
  assumes sv: "sorts_values sv" and day: "valid_day cs" and strat: "valid_strategy strategy cs rs"
  shows "\<exists>r T L.
     run_shift_scenario sv cs d f strategy rs n = Inr r \<and>
     scenario_target_hours sv cs strategy rs n = Inr T \<and>
     T = slice_to n L \<and> distinct L \<and> set L = set (index r) \<and> length L = 24 \<and>
     distinct (index r) \<and> length (index r) = 24 \<and>
     index r = series_index (sort_index cs) \<and>
     baseline_load r = series_values (make_household_profile d) \<and>
     shifted_load r =
       map (\<lambda>(k, b). if k \<in> set T
                      then fadd (fmul b (fsub (Finite 1) f))
                             (fdiv (pd_sum (map (\<lambda>b. fmul b f) (baseline_load r)))
                                (Finite (real (length T))))
                      else fmul b (fsub (Finite 1) f))
         (zip (index r) (baseline_load r)) \<and>
     relative_reduction r =
       fdiv (fsub (total_baseline_emissions r) (total_shifted_emissions r))
         (total_baseline_emissions r) \<and>
     ci r = series_values (sort_index cs) \<and>
     total_baseline_emissions r = np_sum (map2 fmul (baseline_load r) (ci r)) \<and>
     total_shifted_emissions r = np_sum (map2 fmul (shifted_load r) (ci r))"
proof -
  from targets_facts[OF sv day strat, of n]
  obtain rs' T L where
    al: "align_renewable_share strategy rs (series_index (sort_index cs)) = Inr rs'" and
    ch: "choose_target_hours sv strategy (sort_index cs) rs' n = Inr T" and
    st: "scenario_target_hours sv cs strategy rs n = Inr T" and
    T: "T = slice_to n L" and dL: "distinct L" and sL: "set L = set (map fst cs)" and
    lL: "length L = 24"
    by blast
  from T dL have dT: "distinct T" using slice_to_take[of n L] by auto
  from day have len: "length cs = 24" by (simp add: valid_day_def)
  from run_shape[OF al ch len dT, of d f]
  obtain r where
    run: "run_shift_scenario sv cs d f strategy rs n = Inr r" and
    idx: "index r = series_index (sort_index cs)" and
    base: "baseline_load r = series_values (make_household_profile d)" and
    shifted: "shifted_load r =
       map (\<lambda>(k, b). if k \<in> set T
                      then fadd (fmul b (fsub (Finite 1) f))
                             (fdiv (pd_sum (map (\<lambda>b. fmul b f) (series_values (make_household_profile d))))
                                (Finite (real (length T))))
                      else fmul b (fsub (Finite 1) f))
         (zip (series_index (sort_index cs)) (series_values (make_household_profile d)))" and
    rel: "relative_reduction r =
       fdiv (fsub (total_baseline_emissions r) (total_shifted_emissions r))
         (total_baseline_emissions r)" and
    civ: "ci r = series_values (sort_index cs)" and
    tb: "total_baseline_emissions r = np_sum (map2 fmul (baseline_load r) (ci r))" and
    ts: "total_shifted_emissions r = np_sum (map2 fmul (shifted_load r) (ci r))"
    by blast
  note shifted' = shifted[folded idx base]
  from valid_day_sort_index[OF day] have di: "distinct (index r)" and li: "length (index r) = 24"
    by (simp_all add: idx valid_day_def series_index_def)
  have sL': "set L = set (index r)"
    using sL by (simp add: idx series_index_def set_sort_index)
  show ?thesis
    using run st T dL sL' lL di li idx base shifted' rel civ tb ts
    by - (rule exI[of _ r], rule exI[of _ T], rule exI[of _ L], (intro conjI; assumption))
qed

lemma flex_total:
  "pd_sum (map (\<lambda>b. fmul b (Finite y)) (map Finite Pr)) = Finite (sum_list Pr * y)"
proof -
  have "map (\<lambda>b. fmul b (Finite y)) (map Finite Pr) = map Finite (map (\<lambda>b. b * y) Pr)"
    by simp
  then have "pd_sum (map (\<lambda>b. fmul b (Finite y)) (map Finite Pr)) =
      Finite (sum_list (map (\<lambda>b. b * y) Pr))"
    by (simp only: pd_sum_Finite)
  then show ?thesis by (simp only: sum_list_scale)
qed

lemma slice_to_day:
  assumes "1 \<le> n" and "n \<le> 24" and "length L = 24" and "distinct L"
  shows "length (slice_to n L) = nat n" and "distinct (slice_to n L)"
    and "set (slice_to n L) \<subseteq> set L" and "slice_to n L \<noteq> []"
    and "real (length (slice_to n L)) = of_int n"
proof -
  from assms have t: "slice_to n L = take (nat n) L" by (simp add: slice_to_def)
  from assms show "length (slice_to n L) = nat n" unfolding t by simp
  from assms show "distinct (slice_to n L)" unfolding t by simp
  show "set (slice_to n L) \<subseteq> set L" unfolding t by (rule set_take_subset)
  from assms have "length (slice_to n L) \<noteq> 0" unfolding t by simp
  then show "slice_to n L \<noteq> []" by simp
  from assms show "real (length (slice_to n L)) = of_int n" unfolding t by simp
qed

lemma slice_to_beyond:
  assumes "24 < n" and "length L = 24"
  shows "slice_to n L = L"
  using assms by (simp add: slice_to_def)

subsection \<open>A day of zero intensity\<close>

lemma np_sum_zeros: "\<forall>v \<in> set vs. v = Finite 0 \<Longrightarrow> np_sum vs = Finite 0"
proof -
  assume "\<forall>v \<in> set vs. v = Finite 0"
  then have "vs = map Finite (replicate (length vs) 0)"
    by (simp add: map_replicate_const replicate_length_same)
  then have "np_sum vs = Finite (sum_list (replicate (length vs) 0))"
    using np_sum_Finite[of "replicate (length vs) 0"] by simp
  then show ?thesis by (simp add: sum_list_replicate)
qed

lemma zero_products:
  assumes "\<forall>c \<in> set civ. c = Finite 0"
  shows "np_sum (map2 fmul (map Finite Pr) civ) = Finite 0"
proof (rule np_sum_zeros, rule ballI)
  fix v assume "v \<in> set (map2 fmul (map Finite Pr) civ)"
  then obtain a c where "(a, c) \<in> set (zip (map Finite Pr) civ)" and v: "v = fmul a c"
    by auto
  then have "a \<in> set (map Finite Pr)" and "c \<in> set civ"
    by (auto dest: set_zip_leftD set_zip_rightD)
  with assms obtain b where "a = Finite b" and "c = Finite 0" by auto
  with v show "v = Finite 0" by simp
qed

lemma fdiv_by_zero: "\<not> is_finite (fdiv a (Finite 0))"
  by (cases a) simp_all

lemma zero_intensity_day:
  assumes sv: "sorts_values sv" and day: "valid_day cs"
    and zero: "\<forall>c \<in> set (map snd cs). c = Finite 0"
    and en: "valid_energy d" and fr: "valid_fraction f"
    and strat: "valid_strategy strategy cs rs" and n1: "1 \<le> n" and n24: "n \<le> 24"
  shows "\<exists>r. run_shift_scenario sv cs d f strategy rs n = Inr r \<and>
     total_baseline_emissions r = Finite 0 \<and> total_shifted_emissions r = Finite 0 \<and>
     relative_reduction r = NaN"
proof -
  from en obtain x where d: "d = Finite x"
    by (auto simp: valid_energy_def split: float64.splits)
  from fr obtain y where f: "f = Finite y"
    by (auto simp: valid_fraction_def split: float64.splits)
  let ?Pr = "map (\<lambda>w. w * (x / sum_list HOUSEHOLD_PROFILE_RAW)) HOUSEHOLD_PROFILE_RAW"
  from scenario_runs[OF sv day strat, of d f n]
  obtain r T L where
    run: "run_shift_scenario sv cs d f strategy rs n = Inr r" and
    T: "T = slice_to n L" and dL: "distinct L" and lL: "length L = 24" and
    base: "baseline_load r = series_values (make_household_profile d)" and
    shifted: "shifted_load r =
       map (\<lambda>(k, b). if k \<in> set T
                      then fadd (fmul b (fsub (Finite 1) f))
                             (fdiv (pd_sum (map (\<lambda>b. fmul b f) (baseline_load r)))
                                (Finite (real (length T))))
                      else fmul b (fsub (Finite 1) f))
         (zip (index r) (baseline_load r))" and
    rel: "relative_reduction r =
       fdiv (fsub (total_baseline_emissions r) (total_shifted_emissions r))
         (total_baseline_emissions r)" and
    civ: "ci r = series_values (sort_index cs)" and
    tb: "total_baseline_emissions r = np_sum (map2 fmul (baseline_load r) (ci r))" and
    ts: "total_shifted_emissions r = np_sum (map2 fmul (shifted_load r) (ci r))"
    by blast
  note facts = slice_to_day[OF n1 n24 lL dL, folded T]
  have b: "baseline_load r = map Finite ?Pr" unfolding base d by (rule profile_real)
  from zero have z: "\<forall>c \<in> set (ci r). c = Finite 0"
    by (simp add: civ series_values_def set_sort_index)
  obtain zs where sh: "shifted_load r = map Finite zs"
    using shifted[unfolded b f shifted_shape[OF facts(4)]] by blast
  have tb0: "total_baseline_emissions r = Finite 0"
    unfolding tb b using z by (rule zero_products)
  have ts0: "total_shifted_emissions r = Finite 0"
    unfolding ts sh using z by (rule zero_products)
  have "relative_reduction r = NaN"
    unfolding rel tb0 ts0 by (simp add: fsub_def)
  with run tb0 ts0 show ?thesis by simp
qed

lemma zero_day_values: "\<forall>c \<in> set (map snd zero_day). c = Finite 0"
  by (simp add: zero_day_def)

lemma valid_sample_numbers: "valid_energy (Finite 14)" "valid_fraction (Finite 0.3)"
  by (simp_all add: valid_energy_def valid_fraction_def)

lemma valid_low: "valid_strategy ''low_intensity'' cs rs"
  by (simp add: valid_strategy_def)

lemma valid_max_sample: "valid_strategy ''max_renewable'' sample_day (Some sample_share)"
  by (simp add: valid_strategy_def valid_sample_share)

subsection \<open>Ties\<close>





subsection \<open>Finite totals and the balanced day\<close>

lemma finite_list: "list_all is_finite xs \<Longrightarrow> \<exists>ys. xs = map Finite ys"
proof (induction xs)
  case Nil
  then show ?case by simp
next
  case (Cons x xs)
  then obtain ys where "xs = map Finite ys" by auto
  moreover from Cons.prems obtain a where "x = Finite a" by (cases x) simp_all
  ultimately have "x # xs = map Finite (a # ys)" by simp
  then show ?case by (rule exI)
qed

lemma finite_products:
  "np_sum (map2 fmul (map Finite zs) (map Finite cr)) = Finite (sum_list (map2 (*) zs cr))"
proof -
  have "map2 fmul (map Finite zs) (map Finite cr) = map Finite (map2 (*) zs cr)"
  proof (induction zs arbitrary: cr)
    case Nil
    then show ?case by simp
  next
    case (Cons z zs)
    then show ?case by (cases cr) simp_all
  qed
  then show ?thesis by (simp only: np_sum_Finite)
qed

lemma valid_balanced_day: "valid_day balanced_day"
  by (simp add: valid_day_def balanced_day_def upt_rec)

lemma balanced_day_totals:
  "map_sum id total_baseline_emissions
     (run_shift_scenario stable_sort_values balanced_day (Finite 14) (Finite 0.3)
        ''low_intensity'' None 4) = Inr (Finite 0)"
  "map_sum id total_shifted_emissions
     (run_shift_scenario stable_sort_values balanced_day (Finite 14) (Finite 0.3)
        ''low_intensity'' None 4) = Inr (Finite (- 105))"
  by (simp_all add: run_shift_scenario_def Let_def sort_index_def balanced_day_def upt_rec
      align_renewable_share_def make_household_profile_def HOUSEHOLD_PROFILE_RAW_def
      np_sum_def pd_sum_def series_values_def series_index_def series_map_def series_add_def
      choose_target_hours_def stable_sort_values_def slice_to_def allocate_flex_def add_at_def
      fsub_def)

lemma valid_tilted_day: "valid_day tilted_day"
  by (simp add: valid_day_def tilted_day_def upt_rec)

lemma tilted_day_totals:
  "map_sum id total_baseline_emissions
     (run_shift_scenario stable_sort_values tilted_day (Finite 14) (Finite 0.3)
        ''low_intensity'' None 24) = Inr (Finite 0)"
  "map_sum id total_shifted_emissions
     (run_shift_scenario stable_sort_values tilted_day (Finite 14) (Finite 0.3)
        ''low_intensity'' None 24) = Inr (Finite (35 / 2))"
  by (simp_all add: run_shift_scenario_def Let_def sort_index_def tilted_day_def upt_rec
      align_renewable_share_def make_household_profile_def HOUSEHOLD_PROFILE_RAW_def
      np_sum_def pd_sum_def series_values_def series_index_def series_map_def series_add_def
      choose_target_hours_def stable_sort_values_def slice_to_def allocate_flex_def add_at_def
      fsub_def)

section \<open>The claims\<close>

text \<open>
  C1. Energy conservation. For a day of 24 hours, a positive daily energy, a flexible
  share in \<open>[0,1]\<close>, one of the two strategies (with the day's renewable share under
  \<^verbatim>\<open>max_renewable\<close>) and 1 to 24 target hours, the scenario returns a result, and the
  shifted load adds up to what the baseline load adds up to. Finite results are exact here, so
  "within tolerance" is equality.
\<close>

theorem energy_conserved:
  assumes "sorts_values sv" and "valid_day cs" and "valid_energy d" and "valid_fraction f"
    and "valid_strategy strategy cs rs" and "1 \<le> n" and "n \<le> 24"
  shows "\<exists>r. run_shift_scenario sv cs d f strategy rs n = Inr r \<and>
     np_sum (shifted_load r) = np_sum (baseline_load r)"
proof -
  from assms(3) obtain x where d: "d = Finite x"
    by (auto simp: valid_energy_def split: float64.splits)
  from assms(4) obtain y where f: "f = Finite y"
    by (auto simp: valid_fraction_def split: float64.splits)
  let ?Pr = "map (\<lambda>w. w * (x / sum_list HOUSEHOLD_PROFILE_RAW)) HOUSEHOLD_PROFILE_RAW"
  from scenario_runs[OF assms(1,2,5), of d f n]
  obtain r T L where
    run: "run_shift_scenario sv cs d f strategy rs n = Inr r" and
    T: "T = slice_to n L" and dL: "distinct L" and sL: "set L = set (index r)" and
    lL: "length L = 24" and di: "distinct (index r)" and li: "length (index r) = 24" and
    base: "baseline_load r = series_values (make_household_profile d)" and
    shifted: "shifted_load r =
       map (\<lambda>(k, b). if k \<in> set T
                      then fadd (fmul b (fsub (Finite 1) f))
                             (fdiv (pd_sum (map (\<lambda>b. fmul b f) (baseline_load r)))
                                (Finite (real (length T))))
                      else fmul b (fsub (Finite 1) f))
         (zip (index r) (baseline_load r))"
    by blast
  note facts = slice_to_day[OF assms(6,7) lL dL, folded T]
  have b: "baseline_load r = map Finite ?Pr" unfolding base d by (rule profile_real)
  have len: "length (index r) = length ?Pr" using li by (simp add: raw_length)
  from facts(3) sL have sub: "set T \<subseteq> set (index r)" by simp
  have "np_sum (shifted_load r) = np_sum (map Finite ?Pr)"
    unfolding shifted b f by (rule shifted_sum[OF len di facts(2) sub facts(4)])
  with run b show ?thesis by simp
qed

theorem energy_conserved_witness:
  "sorts_values (stable_sort_values :: bool \<Rightarrow> nat series \<Rightarrow> nat series) \<and>
   valid_day sample_day \<and> valid_energy (Finite 14) \<and> valid_fraction (Finite 0.3) \<and>
   valid_strategy ''low_intensity'' sample_day None \<and> (1::int) \<le> 4 \<and> (4::int) \<le> 24 \<and>
   (\<exists>r. run_shift_scenario stable_sort_values sample_day (Finite 14) (Finite 0.3)
           ''low_intensity'' None 4 = Inr r \<and>
     np_sum (shifted_load r) = np_sum (baseline_load r))"
proof -
  have sv: "sorts_values (stable_sort_values :: bool \<Rightarrow> nat series \<Rightarrow> nat series)"
    by (rule stable_sort_values_sorts)
  have low: "valid_strategy ''low_intensity'' sample_day None" by (rule valid_low)
  have n: "(1::int) \<le> 4" "(4::int) \<le> 24" by simp_all
  from energy_conserved[OF sv valid_sample_day valid_sample_numbers low n]
  show ?thesis using sv valid_sample_day valid_sample_numbers low by simp
qed



text \<open>
  C3. For valid inputs the result has the 24 hours of the day as its index and the household
  profile as its baseline load, both of 24 entries, and a shifted load of 24 entries. There
  are exactly \<open>n\<close> distinct target hours, all hours of the day; the shifted load of a target
  hour is its non-flexible load, \<open>baseline * (1 - share)\<close>, plus the total flexible energy
  over \<open>n\<close>, and the shifted load of every other hour is its non-flexible load.
\<close>

theorem flex_goes_to_target_hours:
  assumes "sorts_values sv" and "valid_day cs" and "valid_energy d" and "valid_fraction f"
    and "valid_strategy strategy cs rs" and "1 \<le> n" and "n \<le> 24"
  shows "\<exists>r T.
     run_shift_scenario sv cs d f strategy rs n = Inr r \<and>
     scenario_target_hours sv cs strategy rs n = Inr T \<and>
     length T = nat n \<and> distinct T \<and> set T \<subseteq> set (index r) \<and>
     index r = series_index (sort_index cs) \<and>
     distinct (index r) \<and> length (index r) = 24 \<and>
     baseline_load r = series_values (make_household_profile d) \<and>
     length (baseline_load r) = 24 \<and> length (shifted_load r) = 24 \<and>
     shifted_load r =
       map (\<lambda>(h, b). if h \<in> set T
                      then fadd (fmul b (fsub (Finite 1) f))
                             (fdiv (pd_sum (map (\<lambda>b. fmul b f) (baseline_load r)))
                                (Finite (of_int n)))
                      else fmul b (fsub (Finite 1) f))
         (zip (index r) (baseline_load r))"
proof -
  from scenario_runs[OF assms(1,2,5), of d f n]
  obtain r T L where
    run: "run_shift_scenario sv cs d f strategy rs n = Inr r" and
    st: "scenario_target_hours sv cs strategy rs n = Inr T" and
    T: "T = slice_to n L" and dL: "distinct L" and sL: "set L = set (index r)" and
    lL: "length L = 24" and di: "distinct (index r)" and li: "length (index r) = 24" and
    idx: "index r = series_index (sort_index cs)" and
    base: "baseline_load r = series_values (make_household_profile d)" and
    shifted: "shifted_load r =
       map (\<lambda>(k, b). if k \<in> set T
                      then fadd (fmul b (fsub (Finite 1) f))
                             (fdiv (pd_sum (map (\<lambda>b. fmul b f) (baseline_load r)))
                                (Finite (real (length T))))
                      else fmul b (fsub (Finite 1) f))
         (zip (index r) (baseline_load r))"
    by blast
  note facts = slice_to_day[OF assms(6,7) lL dL, folded T]
  from facts(3) sL have sub: "set T \<subseteq> set (index r)" by simp
  have lb: "length (baseline_load r) = 24"
    unfolding base by (rule length_profile_values)
  have ls: "length (shifted_load r) = 24"
    using li lb by (simp add: shifted)
  show ?thesis
    using run st facts(1,2) sub idx di li base lb ls shifted[unfolded facts(5)]
    by - (rule exI[of _ r], rule exI[of _ T], (intro conjI; assumption))
qed

theorem flex_goes_to_target_hours_witness:
  "sorts_values (stable_sort_values :: bool \<Rightarrow> nat series \<Rightarrow> nat series) \<and>
   valid_day sample_day \<and> valid_energy (Finite 14) \<and> valid_fraction (Finite 0.3) \<and>
   valid_strategy ''low_intensity'' sample_day None \<and> (1::int) \<le> 4 \<and> (4::int) \<le> 24 \<and>
   (\<exists>r T.
     run_shift_scenario stable_sort_values sample_day (Finite 14) (Finite 0.3)
        ''low_intensity'' None 4 = Inr r \<and>
     scenario_target_hours stable_sort_values sample_day ''low_intensity'' None 4 = Inr T \<and>
     length T = 4 \<and> distinct T \<and> set T \<subseteq> set (index r) \<and>
     index r = series_index (sort_index sample_day) \<and>
     distinct (index r) \<and> length (index r) = 24 \<and>
     baseline_load r = series_values (make_household_profile (Finite 14)) \<and>
     length (baseline_load r) = 24 \<and> length (shifted_load r) = 24 \<and>
     shifted_load r =
       map (\<lambda>(h, b). if h \<in> set T
                      then fadd (fmul b (fsub (Finite 1) (Finite 0.3)))
                             (fdiv (pd_sum (map (\<lambda>b. fmul b (Finite 0.3)) (baseline_load r)))
                                (Finite 4))
                      else fmul b (fsub (Finite 1) (Finite 0.3)))
         (zip (index r) (baseline_load r)))"
proof -
  have sv: "sorts_values (stable_sort_values :: bool \<Rightarrow> nat series \<Rightarrow> nat series)"
    by (rule stable_sort_values_sorts)
  have low: "valid_strategy ''low_intensity'' sample_day None" by (rule valid_low)
  have n: "(1::int) \<le> 4" "(4::int) \<le> 24" by simp_all
  note w = flex_goes_to_target_hours[OF sv valid_sample_day valid_sample_numbers low n,
      unfolded of_int_numeral nat_numeral]
  show ?thesis
    using sv valid_sample_day valid_sample_numbers low n w
    by (intro conjI) assumption+
qed

text \<open>
  C4. The claim wants an error or a sentinel when the total baseline emissions are zero.
  The scenario has no such guard. For valid inputs it returns a result; the two totals are
  the sums of load times intensity, the shifted total is a finite number \<open>t\<close>, and the
  relative reduction is the quotient \<open>(baseline - shifted) / baseline\<close>. When the total
  baseline emissions are zero that quotient is NaN if \<open>t = 0\<close>, plus infinity if \<open>t < 0\<close>
  and minus infinity if \<open>t > 0\<close>.
\<close>

theorem zero_baseline_is_not_signalled:
  assumes "sorts_values sv" and "valid_day cs" and "valid_energy d" and "valid_fraction f"
    and "valid_strategy strategy cs rs" and "1 \<le> n" and "n \<le> 24"
  shows "\<exists>r t. run_shift_scenario sv cs d f strategy rs n = Inr r \<and>
     ci r = series_values (sort_index cs) \<and>
     baseline_load r = series_values (make_household_profile d) \<and>
     total_baseline_emissions r = np_sum (map2 fmul (baseline_load r) (ci r)) \<and>
     total_shifted_emissions r = np_sum (map2 fmul (shifted_load r) (ci r)) \<and>
     total_shifted_emissions r = Finite t \<and>
     relative_reduction r =
       fdiv (fsub (total_baseline_emissions r) (total_shifted_emissions r))
         (total_baseline_emissions r) \<and>
     (total_baseline_emissions r = Finite 0 \<longrightarrow>
        relative_reduction r = (if t = 0 then NaN else if t < 0 then PosInf else NegInf))"
proof -
  from assms(3) obtain x where d: "d = Finite x"
    by (auto simp: valid_energy_def split: float64.splits)
  from assms(4) obtain y where f: "f = Finite y"
    by (auto simp: valid_fraction_def split: float64.splits)
  let ?Pr = "map (\<lambda>w. w * (x / sum_list HOUSEHOLD_PROFILE_RAW)) HOUSEHOLD_PROFILE_RAW"
  from scenario_runs[OF assms(1,2,5), of d f n]
  obtain r T L where
    run: "run_shift_scenario sv cs d f strategy rs n = Inr r" and
    T: "T = slice_to n L" and dL: "distinct L" and lL: "length L = 24" and
    base: "baseline_load r = series_values (make_household_profile d)" and
    shifted: "shifted_load r =
       map (\<lambda>(k, b). if k \<in> set T
                      then fadd (fmul b (fsub (Finite 1) f))
                             (fdiv (pd_sum (map (\<lambda>b. fmul b f) (baseline_load r)))
                                (Finite (real (length T))))
                      else fmul b (fsub (Finite 1) f))
         (zip (index r) (baseline_load r))" and
    rel: "relative_reduction r =
       fdiv (fsub (total_baseline_emissions r) (total_shifted_emissions r))
         (total_baseline_emissions r)" and
    civ: "ci r = series_values (sort_index cs)" and
    tb: "total_baseline_emissions r = np_sum (map2 fmul (baseline_load r) (ci r))" and
    ts: "total_shifted_emissions r = np_sum (map2 fmul (shifted_load r) (ci r))"
    by blast
  note facts = slice_to_day[OF assms(6,7) lL dL, folded T]
  have b: "baseline_load r = map Finite ?Pr" unfolding base d by (rule profile_real)
  obtain zs where sh: "shifted_load r = map Finite zs"
    using shifted[unfolded b f shifted_shape[OF facts(4)]] by blast
  from valid_day_sort_index[OF assms(2)] have "list_all is_finite (ci r)"
    by (simp add: civ valid_day_def series_values_def)
  then obtain cr where c: "ci r = map Finite cr" using finite_list by blast
  let ?t = "sum_list (map2 (*) zs cr)"
  have tsf: "total_shifted_emissions r = Finite ?t"
    unfolding ts sh c by (rule finite_products)
  have zero: "relative_reduction r = (if ?t = 0 then NaN else if ?t < 0 then PosInf else NegInf)"
    if "total_baseline_emissions r = Finite 0"
    unfolding rel that tsf by (simp add: fsub_def)
  show ?thesis
    using run civ base tb ts tsf rel zero
    by - (rule exI[of _ r], rule exI[of _ ?t], blast)
qed

theorem zero_baseline_is_not_signalled_witness:
  "sorts_values (stable_sort_values :: bool \<Rightarrow> nat series \<Rightarrow> nat series) \<and>
   valid_day zero_day \<and> valid_day balanced_day \<and> valid_day tilted_day \<and>
   valid_energy (Finite 14) \<and> valid_fraction (Finite 0.3) \<and>
   valid_strategy ''low_intensity'' zero_day None \<and>
   valid_strategy ''low_intensity'' balanced_day None \<and>
   valid_strategy ''low_intensity'' tilted_day None \<and>
   (1::int) \<le> 4 \<and> (4::int) \<le> 24 \<and> (1::int) \<le> 24 \<and> (24::int) \<le> 24 \<and>
   map_sum id total_baseline_emissions
     (run_shift_scenario stable_sort_values zero_day (Finite 14) (Finite 0.3)
        ''low_intensity'' None 4) = Inr (Finite 0) \<and>
   map_sum id total_shifted_emissions
     (run_shift_scenario stable_sort_values zero_day (Finite 14) (Finite 0.3)
        ''low_intensity'' None 4) = Inr (Finite 0) \<and>
   map_sum id relative_reduction
     (run_shift_scenario stable_sort_values zero_day (Finite 14) (Finite 0.3)
        ''low_intensity'' None 4) = Inr NaN \<and>
   map_sum id total_baseline_emissions
     (run_shift_scenario stable_sort_values balanced_day (Finite 14) (Finite 0.3)
        ''low_intensity'' None 4) = Inr (Finite 0) \<and>
   map_sum id total_shifted_emissions
     (run_shift_scenario stable_sort_values balanced_day (Finite 14) (Finite 0.3)
        ''low_intensity'' None 4) = Inr (Finite (- 105)) \<and>
   map_sum id relative_reduction
     (run_shift_scenario stable_sort_values balanced_day (Finite 14) (Finite 0.3)
        ''low_intensity'' None 4) = Inr PosInf \<and>
   map_sum id total_baseline_emissions
     (run_shift_scenario stable_sort_values tilted_day (Finite 14) (Finite 0.3)
        ''low_intensity'' None 24) = Inr (Finite 0) \<and>
   map_sum id total_shifted_emissions
     (run_shift_scenario stable_sort_values tilted_day (Finite 14) (Finite 0.3)
        ''low_intensity'' None 24) = Inr (Finite (35 / 2)) \<and>
   map_sum id relative_reduction
     (run_shift_scenario stable_sort_values tilted_day (Finite 14) (Finite 0.3)
        ''low_intensity'' None 24) = Inr NegInf"
proof -
  have sv: "sorts_values (stable_sort_values :: bool \<Rightarrow> nat series \<Rightarrow> nat series)"
    by (rule stable_sort_values_sorts)
  have lowz: "valid_strategy ''low_intensity'' zero_day None" by (rule valid_low)
  have lowb: "valid_strategy ''low_intensity'' balanced_day None" by (rule valid_low)
  have lowt: "valid_strategy ''low_intensity'' tilted_day None" by (rule valid_low)
  have n: "(1::int) \<le> 4" "(4::int) \<le> 24" by simp_all
  have m: "(1::int) \<le> 24" "(24::int) \<le> 24" by simp_all
  from zero_baseline_is_not_signalled[OF sv valid_zero_day valid_sample_numbers lowz n]
  obtain z t where
    zrun: "run_shift_scenario stable_sort_values zero_day (Finite 14) (Finite 0.3)
        ''low_intensity'' None 4 = Inr z" and
    zt: "total_shifted_emissions z = Finite t" and
    zimp: "total_baseline_emissions z = Finite 0 \<longrightarrow>
        relative_reduction z = (if t = 0 then NaN else if t < 0 then PosInf else NegInf)"
    by blast
  from zero_intensity_day[OF sv valid_zero_day zero_day_values valid_sample_numbers lowz n] zrun
  have ztb: "total_baseline_emissions z = Finite 0"
    and zts: "total_shifted_emissions z = Finite 0"
    by simp_all
  from zt zts have "t = 0" by simp
  with zimp ztb have zrel: "relative_reduction z = NaN" by simp
  from zero_baseline_is_not_signalled[OF sv valid_balanced_day valid_sample_numbers lowb n]
  obtain b u where
    brun: "run_shift_scenario stable_sort_values balanced_day (Finite 14) (Finite 0.3)
        ''low_intensity'' None 4 = Inr b" and
    bts: "total_shifted_emissions b = Finite u" and
    bimp: "total_baseline_emissions b = Finite 0 \<longrightarrow>
        relative_reduction b = (if u = 0 then NaN else if u < 0 then PosInf else NegInf)"
    by blast
  from balanced_day_totals brun have btb: "total_baseline_emissions b = Finite 0"
    and bts': "total_shifted_emissions b = Finite (- 105)"
    by simp_all
  from bts bts' have "u = - 105" by simp
  with bimp btb have brel: "relative_reduction b = PosInf" by simp
  from zero_baseline_is_not_signalled[OF sv valid_tilted_day valid_sample_numbers lowt m]
  obtain c w where
    crun: "run_shift_scenario stable_sort_values tilted_day (Finite 14) (Finite 0.3)
        ''low_intensity'' None 24 = Inr c" and
    cts: "total_shifted_emissions c = Finite w" and
    cimp: "total_baseline_emissions c = Finite 0 \<longrightarrow>
        relative_reduction c = (if w = 0 then NaN else if w < 0 then PosInf else NegInf)"
    by blast
  from tilted_day_totals crun have ctb: "total_baseline_emissions c = Finite 0"
    and cts': "total_shifted_emissions c = Finite (35 / 2)"
    by simp_all
  from cts cts' have "w = 35 / 2" by simp
  with cimp ctb have crel: "relative_reduction c = NegInf" by simp
  show ?thesis
    using sv valid_zero_day valid_balanced_day valid_tilted_day valid_sample_numbers
      lowz lowb lowt n m zrun ztb zts zrel brun btb bts' brel crun ctb cts' crel
    by simp
qed

text \<open>
  C4, the counterexample. On a day of zero intensity the scenario returns a result with
  total baseline emissions 0 and relative reduction NaN; nothing is raised.
\<close>

theorem zero_baseline_counterexample:
  "map_sum id total_baseline_emissions
     (run_shift_scenario stable_sort_values zero_day (Finite 14) (Finite 0.3)
        ''low_intensity'' None 4) = Inr (Finite 0) \<and>
   map_sum id relative_reduction
     (run_shift_scenario stable_sort_values zero_day (Finite 14) (Finite 0.3)
        ''low_intensity'' None 4) = Inr NaN"
proof -
  have sv: "sorts_values (stable_sort_values :: bool \<Rightarrow> nat series \<Rightarrow> nat series)"
    by (rule stable_sort_values_sorts)
  have low: "valid_strategy ''low_intensity'' zero_day None"
    by (rule valid_low)
  have n: "(1::int) \<le> 4" "(4::int) \<le> 24" by simp_all
  from zero_intensity_day[OF sv valid_zero_day zero_day_values valid_sample_numbers low n]
  show ?thesis by auto
qed

text \<open>
  C5. The claim wants every returned share finite and in \<open>[0,1]\<close>. On a day with an hour
  of no generation and no renewables the quotient of that hour is \<open>0/0\<close>, NaN, and the clip
  leaves it: the function returns NaN for hour 3 (and 0.4 for the other hours).
\<close>

theorem zero_generation_gives_nan:
  "compute_renewable_share zero_generation_day =
     map (\<lambda>h. (h, if h = 3 then NaN else Finite 0.4)) [0..<24] \<and>
   map_of (compute_renewable_share zero_generation_day) 3 = Some NaN"
  by (simp add: compute_renewable_share_def zero_generation_day_def series_map_def upt_rec)

text \<open>
  C6. A carbon-intensity series that has not exactly 24 rows makes the scenario raise the
  \<^verbatim>\<open>ValueError\<close> of the length check, whatever the other arguments are.
\<close>

theorem wrong_length_raises:
  "length ci_series \<noteq> 24 \<Longrightarrow>
   run_shift_scenario sv ci_series d f strategy rs n =
     Inl (ValueError (ci_length_msg (length ci_series)))"
  by (simp add: run_shift_scenario_def sort_index_def Let_def)

theorem wrong_length_raises_witness:
  "length short_day \<noteq> 24 \<and>
   run_shift_scenario stable_sort_values short_day
       (Finite 14) (Finite 0.3) ''low_intensity'' None 4 =
     Inl (ValueError (ci_length_msg 23))"
  using wrong_length_raises[of short_day stable_sort_values
      "Finite 14" "Finite 0.3" "''low_intensity''" None 4]
  by (simp add: length_short_day)

text \<open>
  C7. The claim: with \<^verbatim>\<open>max_renewable\<close> and no renewable share, every invocation raises
  the missing-input error. The length check comes first, so that holds for the series of
  24 rows. Under \<^verbatim>\<open>low_intensity\<close> the renewable share is never looked at: the result is
  the one without it.
\<close>

theorem missing_share_raises:
  "(length cs = 24 \<longrightarrow>
      run_shift_scenario sv cs d f ''max_renewable'' None n =
        Inl (ValueError renewable_required_msg)) \<and>
   run_shift_scenario sv cs d f ''low_intensity'' rs n =
     run_shift_scenario sv cs d f ''low_intensity'' None n"
  by (simp add: run_shift_scenario_def Let_def length_sort_index align_renewable_share_def
      choose_target_hours_def)

theorem missing_share_raises_witness:
  "length sample_day = 24 \<and>
   run_shift_scenario stable_sort_values sample_day (Finite 14) (Finite 0.3)
      ''max_renewable'' None 4 = Inl (ValueError renewable_required_msg) \<and>
   run_shift_scenario stable_sort_values sample_day (Finite 14) (Finite 0.3)
      ''low_intensity'' (Some sample_share) 4 =
   run_shift_scenario stable_sort_values sample_day (Finite 14) (Finite 0.3)
      ''low_intensity'' None 4"
proof -
  have len: "length sample_day = 24" using valid_sample_day by (simp add: valid_day_def)
  with missing_share_raises[of sample_day stable_sort_values "Finite 14" "Finite 0.3" 4
      "Some sample_share"]
  show ?thesis by blast
qed

text \<open>
  C7, the counterexample. With a series of 23 rows, \<^verbatim>\<open>max_renewable\<close> and no renewable
  share, the error raised is the one of the length check.
\<close>

theorem missing_share_counterexample:
  "run_shift_scenario stable_sort_values short_day (Finite 14) (Finite 0.3)
      ''max_renewable'' None 4 = Inl (ValueError (ci_length_msg 23)) \<and>
   run_shift_scenario stable_sort_values short_day (Finite 14) (Finite 0.3)
      ''max_renewable'' None 4 \<noteq> Inl (ValueError renewable_required_msg)"
  by (simp add: run_shift_scenario_def Let_def length_sort_index length_short_day)

text \<open>
  C8. The profile generator returns 24 rows, row \<open>h\<close> holding
  \<open>raw[h] * daily_kwh / sum(raw)\<close>, and the rows add up to \<open>daily_kwh\<close>. It holds for
  every finite \<open>daily_kwh\<close>, the positive ones among them; finite results are exact here,
  so "up to rounding" is equality.
\<close>

theorem profile_scaled:
  "make_household_profile (Finite d) =
     zip [0..<24] (map (\<lambda>w. Finite (w * d / sum_list HOUSEHOLD_PROFILE_RAW)) HOUSEHOLD_PROFILE_RAW)
   \<and> length (make_household_profile (Finite d)) = 24
   \<and> np_sum (series_values (make_household_profile (Finite d))) = Finite d"
proof (intro conjI)
  show "make_household_profile (Finite d) =
     zip [0..<24] (map (\<lambda>w. Finite (w * d / sum_list HOUSEHOLD_PROFILE_RAW)) HOUSEHOLD_PROFILE_RAW)"
    by (simp add: make_household_profile_def Let_def np_sum_Finite raw_sum o_def mult.assoc)
  show "length (make_household_profile (Finite d)) = 24"
    by (simp add: make_household_profile_def Let_def raw_length)
  have "sum_list (map (\<lambda>w. w * (d / sum_list HOUSEHOLD_PROFILE_RAW)) HOUSEHOLD_PROFILE_RAW) =
      sum_list HOUSEHOLD_PROFILE_RAW * (d / sum_list HOUSEHOLD_PROFILE_RAW)"
    by (rule sum_list_scale)
  also have "\<dots> = d"
    by (simp add: raw_sum)
  finally have "Finite (sum_list (map (\<lambda>w. w * (d / sum_list HOUSEHOLD_PROFILE_RAW))
      HOUSEHOLD_PROFILE_RAW)) = Finite d"
    by simp
  then show "np_sum (series_values (make_household_profile (Finite d))) = Finite d"
    unfolding profile_values
    using np_sum_Finite[of "map (\<lambda>w. w * (d / sum_list HOUSEHOLD_PROFILE_RAW)) HOUSEHOLD_PROFILE_RAW"]
    by (simp only: map_map o_def)
qed

text \<open>
  C9. With a flexible share of 0 and otherwise valid inputs, the shifted load of the
  result is the baseline load, value for value.
\<close>

theorem zero_share_changes_nothing:
  assumes "sorts_values sv" and "valid_day cs" and "valid_energy d"
    and "valid_strategy strategy cs rs" and "1 \<le> n" and "n \<le> 24"
  shows "\<exists>r. run_shift_scenario sv cs d (Finite 0) strategy rs n = Inr r \<and>
     shifted_load r = baseline_load r"
proof -
  from assms(3) obtain x where d: "d = Finite x"
    by (auto simp: valid_energy_def split: float64.splits)
  let ?Pr = "map (\<lambda>w. w * (x / sum_list HOUSEHOLD_PROFILE_RAW)) HOUSEHOLD_PROFILE_RAW"
  from scenario_runs[OF assms(1,2,4), of d "Finite 0" n]
  obtain r T L where
    run: "run_shift_scenario sv cs d (Finite 0) strategy rs n = Inr r" and
    T: "T = slice_to n L" and dL: "distinct L" and lL: "length L = 24" and
    li: "length (index r) = 24" and
    base: "baseline_load r = series_values (make_household_profile d)" and
    shifted: "shifted_load r =
       map (\<lambda>(k, b). if k \<in> set T
                      then fadd (fmul b (fsub (Finite 1) (Finite 0)))
                             (fdiv (pd_sum (map (\<lambda>b. fmul b (Finite 0)) (baseline_load r)))
                                (Finite (real (length T))))
                      else fmul b (fsub (Finite 1) (Finite 0)))
         (zip (index r) (baseline_load r))"
    by blast
  note facts = slice_to_day[OF assms(5,6) lL dL, folded T]
  have b: "baseline_load r = map Finite ?Pr" unfolding base d by (rule profile_real)
  have "pd_sum (map (\<lambda>b. fmul b (Finite 0)) (baseline_load r)) = Finite 0"
    unfolding b flex_total by simp
  moreover from facts(4) have "real (length T) \<noteq> 0" by simp
  ultimately have p: "fdiv (pd_sum (map (\<lambda>b. fmul b (Finite 0)) (baseline_load r)))
      (Finite (real (length T))) = Finite 0"
    by simp
  have one: "fsub (Finite 1) (Finite 0) = Finite 1" by (simp add: fsub_def)
  have len: "length (index r) = length (baseline_load r)"
    using li by (simp add: b raw_length)
  have "shifted_load r = map snd (zip (index r) (baseline_load r))"
    unfolding shifted p one by (simp add: fmul_one_right fadd_zero_right split_def)
  also have "\<dots> = baseline_load r" using len by simp
  finally show ?thesis using run by simp
qed

theorem zero_share_changes_nothing_witness:
  "sorts_values (stable_sort_values :: bool \<Rightarrow> nat series \<Rightarrow> nat series) \<and>
   valid_day sample_day \<and> valid_energy (Finite 14) \<and>
   valid_strategy ''max_renewable'' sample_day (Some sample_share) \<and>
   (1::int) \<le> 4 \<and> (4::int) \<le> 24 \<and>
   (\<exists>r. run_shift_scenario stable_sort_values sample_day (Finite 14) (Finite 0)
           ''max_renewable'' (Some sample_share) 4 = Inr r \<and>
     shifted_load r = baseline_load r)"
proof -
  have sv: "sorts_values (stable_sort_values :: bool \<Rightarrow> nat series \<Rightarrow> nat series)"
    by (rule stable_sort_values_sorts)
  have n: "(1::int) \<le> 4" "(4::int) \<le> 24" by simp_all
  from zero_share_changes_nothing[OF sv valid_sample_day valid_sample_numbers(1)
      valid_max_sample n]
  show ?thesis using sv valid_sample_day valid_sample_numbers valid_max_sample by simp
qed

text \<open>
  C10. A number of target hours above 24 is not refused. The scenario returns a result with
  the 24 hours of the day as its index and the household profile, 24 entries that add up to
  the daily energy, as its baseline load. All 24 hours are target hours, each of the 24
  entries of the shifted load is the non-flexible load of its hour plus the total flexible
  energy over 24, and the shifted load adds up to what the baseline load adds up to.
\<close>

theorem too_many_target_hours:
  assumes "sorts_values sv" and "valid_day cs" and "valid_energy d" and "valid_fraction f"
    and "valid_strategy strategy cs rs" and "24 < n"
  shows "\<exists>r T.
     run_shift_scenario sv cs d f strategy rs n = Inr r \<and>
     scenario_target_hours sv cs strategy rs n = Inr T \<and>
     length T = 24 \<and> distinct T \<and> set T = set (index r) \<and>
     index r = series_index (sort_index cs) \<and> length (index r) = 24 \<and>
     baseline_load r = series_values (make_household_profile d) \<and>
     length (baseline_load r) = 24 \<and> length (shifted_load r) = 24 \<and>
     shifted_load r =
       map (\<lambda>b. fadd (fmul b (fsub (Finite 1) f))
                   (fdiv (pd_sum (map (\<lambda>b. fmul b f) (baseline_load r))) (Finite 24)))
         (baseline_load r) \<and>
     np_sum (shifted_load r) = np_sum (baseline_load r) \<and>
     np_sum (baseline_load r) = d"
proof -
  from assms(3) obtain x where d: "d = Finite x"
    by (auto simp: valid_energy_def split: float64.splits)
  from assms(4) obtain y where f: "f = Finite y"
    by (auto simp: valid_fraction_def split: float64.splits)
  let ?Pr = "map (\<lambda>w. w * (x / sum_list HOUSEHOLD_PROFILE_RAW)) HOUSEHOLD_PROFILE_RAW"
  from scenario_runs[OF assms(1,2,5), of d f n]
  obtain r T L where
    run: "run_shift_scenario sv cs d f strategy rs n = Inr r" and
    st: "scenario_target_hours sv cs strategy rs n = Inr T" and
    T: "T = slice_to n L" and dL: "distinct L" and sL: "set L = set (index r)" and
    lL: "length L = 24" and di: "distinct (index r)" and li: "length (index r) = 24" and
    idx: "index r = series_index (sort_index cs)" and
    base: "baseline_load r = series_values (make_household_profile d)" and
    shifted: "shifted_load r =
       map (\<lambda>(k, b). if k \<in> set T
                      then fadd (fmul b (fsub (Finite 1) f))
                             (fdiv (pd_sum (map (\<lambda>b. fmul b f) (baseline_load r)))
                                (Finite (real (length T))))
                      else fmul b (fsub (Finite 1) f))
         (zip (index r) (baseline_load r))"
    by blast
  from slice_to_beyond[OF assms(6) lL] T have TL: "T = L" by simp
  have lT: "length T = 24" and dT: "distinct T" and sT: "set T = set (index r)"
    using TL lL dL sL by simp_all
  have b: "baseline_load r = map Finite ?Pr" unfolding base d by (rule profile_real)
  have len: "length (index r) = length ?Pr" using li by (simp add: raw_length)
  have ne: "T \<noteq> []" using lT by auto
  have sum: "np_sum (shifted_load r) = np_sum (map Finite ?Pr)"
    unfolding shifted b f using sT by (intro shifted_sum[OF len di dT _ ne]) simp
  have "sum_list ?Pr = sum_list HOUSEHOLD_PROFILE_RAW * (x / sum_list HOUSEHOLD_PROFILE_RAW)"
    by (rule sum_list_scale)
  also have "\<dots> = x" by (simp add: raw_sum)
  finally have total: "np_sum (baseline_load r) = d"
    unfolding b d by (simp only: np_sum_Finite)
  let ?g = "\<lambda>b. fadd (fmul b (fsub (Finite 1) f))
                   (fdiv (pd_sum (map (\<lambda>b. fmul b f) (baseline_load r))) (Finite 24))"
  have len2: "length (index r) = length (baseline_load r)" using len b by simp
  have "shifted_load r = map (\<lambda>(k, b). ?g b) (zip (index r) (baseline_load r))"
    unfolding shifted[unfolded lT] sT
    by (rule map_cong[OF refl]) (auto dest: set_zip_leftD)
  also have "\<dots> = map ?g (map snd (zip (index r) (baseline_load r)))"
    by (simp add: split_def o_def)
  also have "\<dots> = map ?g (baseline_load r)" using len2 by simp
  finally have shape: "shifted_load r = map ?g (baseline_load r)" .
  have lb: "length (baseline_load r) = 24" using len2 li by simp
  have ls: "length (shifted_load r) = 24" using lb by (simp add: shape)
  have sum': "np_sum (shifted_load r) = np_sum (baseline_load r)" using sum b by simp
  show ?thesis
    using run st lT dT sT idx li base lb ls shape sum' total
    by - (rule exI[of _ r], rule exI[of _ T], (intro conjI; assumption))
qed

theorem too_many_target_hours_witness:
  "sorts_values (stable_sort_values :: bool \<Rightarrow> nat series \<Rightarrow> nat series) \<and>
   valid_day sample_day \<and> valid_energy (Finite 14) \<and> valid_fraction (Finite 0.3) \<and>
   valid_strategy ''low_intensity'' sample_day None \<and> (24::int) < 30 \<and>
   (\<exists>r T.
     run_shift_scenario stable_sort_values sample_day (Finite 14) (Finite 0.3)
        ''low_intensity'' None 30 = Inr r \<and>
     scenario_target_hours stable_sort_values sample_day ''low_intensity'' None 30 = Inr T \<and>
     length T = 24 \<and> distinct T \<and> set T = set (index r) \<and>
     index r = series_index (sort_index sample_day) \<and> length (index r) = 24 \<and>
     baseline_load r = series_values (make_household_profile (Finite 14)) \<and>
     length (baseline_load r) = 24 \<and> length (shifted_load r) = 24 \<and>
     shifted_load r =
       map (\<lambda>b. fadd (fmul b (fsub (Finite 1) (Finite 0.3)))
                   (fdiv (pd_sum (map (\<lambda>b. fmul b (Finite 0.3)) (baseline_load r))) (Finite 24)))
         (baseline_load r) \<and>
     np_sum (shifted_load r) = np_sum (baseline_load r) \<and>
     np_sum (baseline_load r) = Finite 14)"
proof -
  have sv: "sorts_values (stable_sort_values :: bool \<Rightarrow> nat series \<Rightarrow> nat series)"
    by (rule stable_sort_values_sorts)
  have low: "valid_strategy ''low_intensity'' sample_day None" by (rule valid_low)
  have n: "(24::int) < 30" by simp
  note w = too_many_target_hours[OF sv valid_sample_day valid_sample_numbers low n]
  show ?thesis
    using sv valid_sample_day valid_sample_numbers low n w
    by (intro conjI) assumption+
qed

end
